theory Spec2Isabelle
  imports Complex_Main "HOL-Library.Word"
begin

unbundle bit_operations_syntax

section \<open>Data model\<close>

text \<open>
  The simulator exists in two source files, \<^verbatim>\<open>IMT2023048_031_045_Code.cpp\<close> (the
  touch-only recency update) and \<^verbatim>\<open>modified.cpp\<close> (the full-order recency update).
  They share the data types, the address decoding, the two scans of a set and the driver;
  they differ only in the extra loop that ages the other lines of the set.

  \<^verbatim>\<open>uint32_t\<close> and \<^verbatim>\<open>int\<close> are both 32-bit words here. For \<^verbatim>\<open>int\<close> the word is
  read through \<open>sint\<close>; \<^verbatim>\<open>++\<close> wraps around in the model (C++ leaves signed overflow
  undefined, two's complement hardware wraps).
\<close>

type_synonym uint32_t = "32 word"
type_synonym int32_t = "32 word"

record CacheLine =
  valid :: bool
  tag :: uint32_t
  LRUcount :: int32_t

text \<open>The constructor \<^verbatim>\<open>CacheLine() : valid(false), tag(0), LRUcount(0)\<close>.\<close>

definition CacheLine_new :: CacheLine where
  "CacheLine_new = \<lparr>valid = False, tag = 0, LRUcount = 0\<rparr>"

text \<open>
  \<^verbatim>\<open>struct CacheMem\<close> (\<^verbatim>\<open>CacheSet\<close> in \<^verbatim>\<open>modified.cpp\<close>) has the single member
  \<^verbatim>\<open>vector<CacheLine> lines\<close>; it is the list of its lines.
\<close>

type_synonym CacheMem = "CacheLine list"

definition CacheMem_new :: "nat \<Rightarrow> CacheMem" where
  "CacheMem_new associativity = replicate associativity CacheLine_new"

text \<open>
  The global variables \<^verbatim>\<open>hit\<close>, \<^verbatim>\<open>miss\<close>, \<^verbatim>\<open>accesscount\<close> and the cache vector
  that \<^verbatim>\<open>CacheAccess\<close> mutates through its reference parameter.
\<close>

record sim_state =
  cache :: "CacheMem list"
  hit :: int32_t
  miss :: int32_t
  accesscount :: int32_t

section \<open>Address decoding\<close>

text \<open>
  \<^verbatim>\<open>(uint32_t)log2(x)\<close>: the binary logarithm in double precision, truncated. Every
  \<^verbatim>\<open>uint32_t\<close> is exact as a double and the logarithm of a value below a power of two
  stays below the exponent, so for \<open>x \<ge> 1\<close> the result is the floor of the logarithm.
  For \<open>x = 0\<close> the source converts minus infinity, which C++ leaves undefined; the model
  yields 0 there.
\<close>

fun floor_log2 :: "nat \<Rightarrow> nat" where
  "floor_log2 n = (if n < 2 then 0 else Suc (floor_log2 (n div 2)))"

declare floor_log2.simps [simp del]

definition log2_u32 :: "uint32_t \<Rightarrow> nat" where
  "log2_u32 x = floor_log2 (unat x)"

text \<open>
  Shifts: \<open>offsetBits\<close> and \<open>indexBits\<close> are at most 31 each, so the shift of
  \<^verbatim>\<open>getIndex\<close> is \<open>drop_bit offsetBits\<close>. In \<^verbatim>\<open>getTag\<close> the count
  \<open>offsetBits + indexBits\<close> can reach 62. C++ leaves \<^verbatim>\<open>address >> n\<close> undefined for
  \<open>n \<ge> 32\<close>; the shift instruction of the x86 build takes the count modulo 32
  (a count of 32 returns the address unchanged), and the model does the same.
  \<^verbatim>\<open>(1 << indexBits) - 1\<close> is computed in \<^verbatim>\<open>int\<close> and converted to \<^verbatim>\<open>uint32_t\<close> by
  the \<^verbatim>\<open>&\<close>; on 32-bit words that is \<open>push_bit indexBits 1 - 1\<close>.
\<close>

definition getIndex :: "uint32_t \<Rightarrow> uint32_t \<Rightarrow> uint32_t \<Rightarrow> uint32_t" where
  "getIndex address blockSize cacheLineNum =
     (let offsetBits = log2_u32 blockSize;
          indexBits = log2_u32 cacheLineNum
      in drop_bit offsetBits address AND (push_bit indexBits 1 - 1))"

definition getTag :: "uint32_t \<Rightarrow> uint32_t \<Rightarrow> uint32_t \<Rightarrow> uint32_t" where
  "getTag address blockSize cacheLineNum =
     (let offsetBits = log2_u32 blockSize;
          indexBits = log2_u32 cacheLineNum
      in drop_bit ((offsetBits + indexBits) mod 32) address)"

section \<open>The scans of one set\<close>

text \<open>
  The hit loop: \<^verbatim>\<open>for (int i = 0; i < setAssociativity; i++)\<close>, leaving at the first
  valid line whose tag matches. \<open>Some i\<close> is the matching index, \<open>None\<close> that the loop ran
  to its end.
\<close>

function hit_scan :: "CacheLine list \<Rightarrow> nat \<Rightarrow> uint32_t \<Rightarrow> nat \<Rightarrow> nat option" where
  "hit_scan lns setAssociativity tg i =
     (if i < setAssociativity then
        (if valid (lns ! i) \<and> tag (lns ! i) = tg then Some i
         else hit_scan lns setAssociativity tg (Suc i))
      else None)"
  by pat_completeness auto
termination
  by (relation "measure (\<lambda>(lns, n, tg, i). n - i)") auto

declare hit_scan.simps [simp del]

text \<open>
  The miss loop, from \<^verbatim>\<open>int tracker = 0; uint32_t minUsed = numeric_limits<uint32_t>::max()\<close>:
  it breaks at the first invalid line, and otherwise keeps the index of the smallest
  \<^verbatim>\<open>LRUcount\<close> seen so far. The comparison \<^verbatim>\<open>LRUcount < minUsed\<close> is between \<^verbatim>\<open>int\<close> and
  \<^verbatim>\<open>uint32_t\<close>, hence unsigned: \<open><\<close> on words.
\<close>

function miss_scan :: "CacheLine list \<Rightarrow> nat \<Rightarrow> nat \<Rightarrow> nat \<Rightarrow> uint32_t \<Rightarrow> nat" where
  "miss_scan lns setAssociativity i tracker minUsed =
     (if i < setAssociativity then
        (if \<not> valid (lns ! i) then i
         else if LRUcount (lns ! i) < minUsed
              then miss_scan lns setAssociativity (Suc i) i (LRUcount (lns ! i))
              else miss_scan lns setAssociativity (Suc i) tracker minUsed)
      else tracker)"
  by pat_completeness auto
termination
  by (relation "measure (\<lambda>(lns, n, i, tracker, minUsed). n - i)") auto

declare miss_scan.simps [simp del]

definition victim :: "CacheLine list \<Rightarrow> nat \<Rightarrow> nat" where
  "victim lns setAssociativity = miss_scan lns setAssociativity 0 0 (- 1)"

text \<open>
  The loop of \<^verbatim>\<open>modified.cpp\<close> under the comment \<^verbatim>\<open>Update LRU counts for all lines\<close>:
  every valid line other than line \<open>k\<close> has its \<^verbatim>\<open>LRUcount\<close> incremented.
\<close>

function age_others :: "CacheLine list \<Rightarrow> nat \<Rightarrow> nat \<Rightarrow> nat \<Rightarrow> CacheLine list" where
  "age_others lns setAssociativity k j =
     (if j < setAssociativity then
        age_others
          (if k \<noteq> j \<and> valid (lns ! j)
           then lns[j := (lns ! j)\<lparr>LRUcount := LRUcount (lns ! j) + 1\<rparr>]
           else lns)
          setAssociativity k (Suc j)
      else lns)"
  by pat_completeness auto
termination
  by (relation "measure (\<lambda>(lns, n, k, j). n - j)") auto

declare age_others.simps [simp del]

section \<open>One access\<close>

text \<open>
  \<^verbatim>\<open>CacheAccess\<close> of \<^verbatim>\<open>IMT2023048_031_045_Code.cpp\<close>. \<^verbatim>\<open>accesscount++\<close> yields the old
  value and then increments. The driver only calls it with \<open>index\<close> below the length of
  the cache and with every set of length \<open>setAssociativity \<ge> 1\<close>, so no access of the
  source is out of range (HOL's \<open>!\<close> and list update are only used in range there).
\<close>

definition CacheAccess ::
  "uint32_t \<Rightarrow> nat \<Rightarrow> uint32_t \<Rightarrow> uint32_t \<Rightarrow> sim_state \<Rightarrow> sim_state" where
  "CacheAccess address setAssociativity blockSize cacheLineNum s =
     (let index = unat (getIndex address blockSize cacheLineNum);
          tg = getTag address blockSize cacheLineNum;
          cachemem = cache s ! index
      in case hit_scan cachemem setAssociativity tg 0 of
           Some i \<Rightarrow>
             s\<lparr>hit := hit s + 1,
               cache := (cache s)[index :=
                 cachemem[i := (cachemem ! i)\<lparr>LRUcount := accesscount s\<rparr>]],
               accesscount := accesscount s + 1\<rparr>
         | None \<Rightarrow>
             (let tracker = victim cachemem setAssociativity
              in s\<lparr>miss := miss s + 1,
                   cache := (cache s)[index :=
                     cachemem[tracker := \<lparr>valid = True, tag = tg, LRUcount = accesscount s\<rparr>]],
                   accesscount := accesscount s + 1\<rparr>))"

text \<open>\<^verbatim>\<open>CacheAccess\<close> of \<^verbatim>\<open>modified.cpp\<close>: the same, followed by the ageing loop.\<close>

definition CacheAccess_modified ::
  "uint32_t \<Rightarrow> nat \<Rightarrow> uint32_t \<Rightarrow> uint32_t \<Rightarrow> sim_state \<Rightarrow> sim_state" where
  "CacheAccess_modified address setAssociativity blockSize cacheLineNum s =
     (let index = unat (getIndex address blockSize cacheLineNum);
          tg = getTag address blockSize cacheLineNum;
          cachemem = cache s ! index
      in case hit_scan cachemem setAssociativity tg 0 of
           Some i \<Rightarrow>
             s\<lparr>hit := hit s + 1,
               cache := (cache s)[index :=
                 age_others (cachemem[i := (cachemem ! i)\<lparr>LRUcount := accesscount s\<rparr>])
                   setAssociativity i 0],
               accesscount := accesscount s + 1\<rparr>
         | None \<Rightarrow>
             (let tracker = victim cachemem setAssociativity
              in s\<lparr>miss := miss s + 1,
                   cache := (cache s)[index :=
                     age_others
                       (cachemem[tracker := \<lparr>valid = True, tag = tg, LRUcount = accesscount s\<rparr>])
                       setAssociativity tracker 0],
                   accesscount := accesscount s + 1\<rparr>))"

section \<open>The driver\<close>

text \<open>
  \<^verbatim>\<open>double\<close> results of \<^verbatim>\<open>(double)a / b\<close> for two \<^verbatim>\<open>int\<close> values: IEEE 754 gives NaN for
  0/0 and an infinity for a nonzero value over 0. A finite quotient is kept as the exact
  rational; its rounding to double precision is not modelled.
\<close>

datatype fp = Finite rat | NaN | PosInf | NegInf

definition double_div :: "int \<Rightarrow> int \<Rightarrow> fp" where
  "double_div a b =
     (if b = 0 then (if a = 0 then NaN else if 0 < a then PosInf else NegInf)
      else Finite (of_int a / of_int b))"

fun times100 :: "fp \<Rightarrow> fp" where
  "times100 (Finite r) = Finite (r * 100)"
| "times100 NaN = NaN"
| "times100 PosInf = PosInf"
| "times100 NegInf = NegInf"

text \<open>The line written to the CSV file.\<close>

record csv_row =
  traceName :: string
  cacheSizeKB :: uint32_t
  blockSizeBytes :: uint32_t
  associativity :: int32_t
  hitRate :: fp
  missRate :: fp

text \<open>
  What one call of \<^verbatim>\<open>simulateCache\<close> does:
  \<^item> \<open>DivisionByZero\<close>: \<^verbatim>\<open>blockSize * setAssociativity\<close> is 0 and the integer division traps;
  \<^item> \<open>InvalidConfiguration\<close>: the message \<^verbatim>\<open>Invalid configuration: Cache line number is zero\<close>
    on \<^verbatim>\<open>cerr\<close> and \<^verbatim>\<open>return\<close>;
  \<^item> \<open>LengthError\<close>: a negative \<^verbatim>\<open>setAssociativity\<close> given to the vector constructor,
    which throws;
  \<^item> \<open>UnableToOpen\<close>: the message \<^verbatim>\<open>Unable to open file\<close> on \<^verbatim>\<open>cerr\<close> and \<^verbatim>\<open>return\<close>;
  \<^item> \<open>Row r\<close>: the row \<open>r\<close> written to the CSV file.
\<close>

datatype outcome = DivisionByZero | InvalidConfiguration | LengthError | UnableToOpen
  | Row csv_row

text \<open>\<^verbatim>\<open>vector<CacheMem> cache(cacheLineNum, CacheMem(setAssociativity))\<close> and the reset counters.\<close>

definition fresh :: "nat \<Rightarrow> nat \<Rightarrow> sim_state" where
  "fresh cacheLineNum setAssociativity =
     \<lparr>cache = replicate cacheLineNum (CacheMem_new setAssociativity),
      hit = 0, miss = 0, accesscount = 0\<rparr>"

text \<open>The \<^verbatim>\<open>while (getline ...)\<close> loop over the addresses of the trace.\<close>

definition replay ::
  "(uint32_t \<Rightarrow> nat \<Rightarrow> uint32_t \<Rightarrow> uint32_t \<Rightarrow> sim_state \<Rightarrow> sim_state) \<Rightarrow>
   nat \<Rightarrow> uint32_t \<Rightarrow> uint32_t \<Rightarrow> uint32_t list \<Rightarrow> sim_state \<Rightarrow> sim_state" where
  "replay access setAssociativity blockSize cacheLineNum addresses s =
     foldl (\<lambda>s address. access address setAssociativity blockSize cacheLineNum s) s addresses"

text \<open>
  \<^verbatim>\<open>simulateCache\<close>, the same text in both files apart from the \<^verbatim>\<open>CacheAccess\<close> it calls.
  The trace file is its name and, when it can be opened, the addresses of its lines
  (parsing is outside the model). \<^verbatim>\<open>blockSize * setAssociativity\<close> is computed in
  \<^verbatim>\<open>uint32_t\<close>; \<^verbatim>\<open>hit + miss\<close> in \<^verbatim>\<open>int\<close>.
\<close>

definition simulateCache_with ::
  "(uint32_t \<Rightarrow> nat \<Rightarrow> uint32_t \<Rightarrow> uint32_t \<Rightarrow> sim_state \<Rightarrow> sim_state) \<Rightarrow>
   uint32_t \<Rightarrow> uint32_t \<Rightarrow> int32_t \<Rightarrow> string \<Rightarrow> uint32_t list option \<Rightarrow> outcome" where
  "simulateCache_with access cacheSize blockSize setAssociativity traceFile tracefile =
     (if blockSize * setAssociativity = 0 then DivisionByZero
      else
        (let cacheLineNum = cacheSize div (blockSize * setAssociativity)
         in if cacheLineNum = 0 then InvalidConfiguration
            else if sint setAssociativity < 0 then LengthError
            else
              (case tracefile of
                 None \<Rightarrow> UnableToOpen
               | Some addresses \<Rightarrow>
                   (let s = replay access (nat (sint setAssociativity)) blockSize cacheLineNum
                              addresses
                              (fresh (unat cacheLineNum) (nat (sint setAssociativity)))
                    in Row \<lparr>traceName = traceFile,
                            cacheSizeKB = cacheSize div 1024,
                            blockSizeBytes = blockSize,
                            associativity = setAssociativity,
                            hitRate = times100 (double_div (sint (hit s)) (sint (hit s + miss s))),
                            missRate = times100 (double_div (sint (miss s)) (sint (hit s + miss s)))\<rparr>))))"

definition simulateCache ::
  "uint32_t \<Rightarrow> uint32_t \<Rightarrow> int32_t \<Rightarrow> string \<Rightarrow> uint32_t list option \<Rightarrow> outcome" where
  "simulateCache = simulateCache_with CacheAccess"

definition simulateCache_modified ::
  "uint32_t \<Rightarrow> uint32_t \<Rightarrow> int32_t \<Rightarrow> string \<Rightarrow> uint32_t list option \<Rightarrow> outcome" where
  "simulateCache_modified = simulateCache_with CacheAccess_modified"

section \<open>Invariants used in the proofs\<close>

text \<open>
  What the miss loop knows when it reaches index \<open>i\<close> with every earlier line valid:
  \<open>minUsed\<close> is a lower bound of the counts seen, strictly below those before
  \<open>tracker\<close>, and from the second round on it is the count of line \<open>tracker\<close>.
\<close>

definition scan_inv :: "CacheLine list \<Rightarrow> nat \<Rightarrow> nat \<Rightarrow> uint32_t \<Rightarrow> bool" where
  "scan_inv lns i tracker minUsed \<longleftrightarrow>
     (\<forall>j<i. minUsed \<le> LRUcount (lns ! j)) \<and>
     (\<forall>j<tracker. minUsed < LRUcount (lns ! j)) \<and>
     (if i = 0 then tracker = 0 \<and> minUsed = - 1
      else tracker < i \<and> minUsed = LRUcount (lns ! tracker))"

text \<open>A set of \<open>n\<close> lines whose valid lines carry pairwise different tags.\<close>

definition set_ok :: "nat \<Rightarrow> CacheLine list \<Rightarrow> bool" where
  "set_ok n lns \<longleftrightarrow>
     length lns = n \<and>
     (\<forall>i<n. \<forall>j<n. i \<noteq> j \<and> valid (lns ! i) \<and> valid (lns ! j) \<longrightarrow> tag (lns ! i) \<noteq> tag (lns ! j))"

definition cache_inv :: "nat \<Rightarrow> nat \<Rightarrow> sim_state \<Rightarrow> bool" where
  "cache_inv c n s \<longleftrightarrow> length (cache s) = c \<and> (\<forall>m \<in> set (cache s). set_ok n m)"

section \<open>Concrete runs\<close>

text \<open>
  A direct-mapped cache with one set and blocks of 16 bytes: the addresses \<open>0x0\<close> and
  \<open>0x10\<close> have index 0 and the tags 0 and 1. The states after each prefix of the trace
  \<open>[0x0, 0x0, 0x10, 0x0]\<close>, for the touch-only file.
\<close>

lemma direct_mapped_step1:
  "replay CacheAccess 1 16 1 [0x0] (fresh 1 1) =
     \<lparr>cache = [[\<lparr>valid = True, tag = 0, LRUcount = 0\<rparr>]],
      hit = 0, miss = 1, accesscount = 1\<rparr>"
  by code_simp

lemma direct_mapped_step2:
  "replay CacheAccess 1 16 1 [0x0, 0x0] (fresh 1 1) =
     \<lparr>cache = [[\<lparr>valid = True, tag = 0, LRUcount = 1\<rparr>]],
      hit = 1, miss = 1, accesscount = 2\<rparr>"
  by code_simp

lemma direct_mapped_step3:
  "replay CacheAccess 1 16 1 [0x0, 0x0, 0x10] (fresh 1 1) =
     \<lparr>cache = [[\<lparr>valid = True, tag = 1, LRUcount = 2\<rparr>]],
      hit = 1, miss = 2, accesscount = 3\<rparr>"
  by code_simp

lemma direct_mapped_step4:
  "replay CacheAccess 1 16 1 [0x0, 0x0, 0x10, 0x0] (fresh 1 1) =
     \<lparr>cache = [[\<lparr>valid = True, tag = 0, LRUcount = 3\<rparr>]],
      hit = 1, miss = 3, accesscount = 4\<rparr>"
  by code_simp

lemma direct_mapped_row:
  "simulateCache 16 16 1 traceFile (Some [0x0, 0x0, 0x10, 0x0]) =
     Row \<lparr>traceName = traceFile, cacheSizeKB = 0, blockSizeBytes = 16, associativity = 1,
          hitRate = Finite 25, missRate = Finite 75\<rparr>"
  by code_simp

text \<open>The same prefixes for \<^verbatim>\<open>modified.cpp\<close>.\<close>

lemma direct_mapped_modified_step1:
  "replay CacheAccess_modified 1 16 1 [0x0] (fresh 1 1) =
     \<lparr>cache = [[\<lparr>valid = True, tag = 0, LRUcount = 0\<rparr>]],
      hit = 0, miss = 1, accesscount = 1\<rparr>"
  by code_simp

lemma direct_mapped_modified_step2:
  "replay CacheAccess_modified 1 16 1 [0x0, 0x0] (fresh 1 1) =
     \<lparr>cache = [[\<lparr>valid = True, tag = 0, LRUcount = 1\<rparr>]],
      hit = 1, miss = 1, accesscount = 2\<rparr>"
  by code_simp

lemma direct_mapped_modified_step3:
  "replay CacheAccess_modified 1 16 1 [0x0, 0x0, 0x10] (fresh 1 1) =
     \<lparr>cache = [[\<lparr>valid = True, tag = 1, LRUcount = 2\<rparr>]],
      hit = 1, miss = 2, accesscount = 3\<rparr>"
  by code_simp

lemma direct_mapped_modified_step4:
  "replay CacheAccess_modified 1 16 1 [0x0, 0x0, 0x10, 0x0] (fresh 1 1) =
     \<lparr>cache = [[\<lparr>valid = True, tag = 0, LRUcount = 3\<rparr>]],
      hit = 1, miss = 3, accesscount = 4\<rparr>"
  by code_simp

lemma direct_mapped_modified_row:
  "simulateCache_modified 16 16 1 traceFile (Some [0x0, 0x0, 0x10, 0x0]) =
     Row \<lparr>traceName = traceFile, cacheSizeKB = 0, blockSizeBytes = 16, associativity = 1,
          hitRate = Finite 25, missRate = Finite 75\<rparr>"
  by code_simp

text \<open>
  Claim C3. Replaying \<open>[0x0, 0x0, 0x10, 0x0]\<close> on a fresh cache with \<open>blockSize = 16\<close>,
  one set and associativity 1: the first access is a miss that installs tag 0 (only
  \<open>miss\<close> grows), the second a hit (only \<open>hit\<close> grows), the third a miss that replaces
  tag 0 by the tag of \<open>0x10\<close>, the fourth a miss again; the counters end at
  \<open>hit = 1\<close>, \<open>miss = 3\<close>, and the row written by \<^verbatim>\<open>simulateCache\<close> (cache size 16, so
  that the number of sets is 1) carries the hit rate 25 and the miss rate 75. This holds
  for both source files.
\<close>

theorem end_to_end_direct_mapped:
  "replay CacheAccess 1 16 1 [0x0] (fresh 1 1) =
     \<lparr>cache = [[\<lparr>valid = True, tag = 0, LRUcount = 0\<rparr>]],
      hit = 0, miss = 1, accesscount = 1\<rparr> \<and>
   replay CacheAccess 1 16 1 [0x0, 0x0] (fresh 1 1) =
     \<lparr>cache = [[\<lparr>valid = True, tag = 0, LRUcount = 1\<rparr>]],
      hit = 1, miss = 1, accesscount = 2\<rparr> \<and>
   replay CacheAccess 1 16 1 [0x0, 0x0, 0x10] (fresh 1 1) =
     \<lparr>cache = [[\<lparr>valid = True, tag = 1, LRUcount = 2\<rparr>]],
      hit = 1, miss = 2, accesscount = 3\<rparr> \<and>
   replay CacheAccess 1 16 1 [0x0, 0x0, 0x10, 0x0] (fresh 1 1) =
     \<lparr>cache = [[\<lparr>valid = True, tag = 0, LRUcount = 3\<rparr>]],
      hit = 1, miss = 3, accesscount = 4\<rparr> \<and>
   simulateCache 16 16 1 traceFile (Some [0x0, 0x0, 0x10, 0x0]) =
     Row \<lparr>traceName = traceFile, cacheSizeKB = 0, blockSizeBytes = 16, associativity = 1,
          hitRate = Finite 25, missRate = Finite 75\<rparr> \<and>
   replay CacheAccess_modified 1 16 1 [0x0] (fresh 1 1) =
     \<lparr>cache = [[\<lparr>valid = True, tag = 0, LRUcount = 0\<rparr>]],
      hit = 0, miss = 1, accesscount = 1\<rparr> \<and>
   replay CacheAccess_modified 1 16 1 [0x0, 0x0] (fresh 1 1) =
     \<lparr>cache = [[\<lparr>valid = True, tag = 0, LRUcount = 1\<rparr>]],
      hit = 1, miss = 1, accesscount = 2\<rparr> \<and>
   replay CacheAccess_modified 1 16 1 [0x0, 0x0, 0x10] (fresh 1 1) =
     \<lparr>cache = [[\<lparr>valid = True, tag = 1, LRUcount = 2\<rparr>]],
      hit = 1, miss = 2, accesscount = 3\<rparr> \<and>
   replay CacheAccess_modified 1 16 1 [0x0, 0x0, 0x10, 0x0] (fresh 1 1) =
     \<lparr>cache = [[\<lparr>valid = True, tag = 0, LRUcount = 3\<rparr>]],
      hit = 1, miss = 3, accesscount = 4\<rparr> \<and>
   simulateCache_modified 16 16 1 traceFile (Some [0x0, 0x0, 0x10, 0x0]) =
     Row \<lparr>traceName = traceFile, cacheSizeKB = 0, blockSizeBytes = 16, associativity = 1,
          hitRate = Finite 25, missRate = Finite 75\<rparr>"
  by (intro conjI direct_mapped_step1 direct_mapped_step2 direct_mapped_step3
      direct_mapped_step4 direct_mapped_row direct_mapped_modified_step1
      direct_mapped_modified_step2 direct_mapped_modified_step3
      direct_mapped_modified_step4 direct_mapped_modified_row)

text \<open>
  One set of two lines, blocks of 16 bytes: the addresses \<open>0x00\<close>, \<open>0x10\<close>, \<open>0x20\<close> carry
  the tags \<open>A = 0\<close>, \<open>B = 1\<close>, \<open>C = 2\<close>.
\<close>

lemma two_way_modified_ABA:
  "replay CacheAccess_modified 2 16 1 [0x00, 0x10, 0x00] (fresh 1 2) =
     \<lparr>cache = [[\<lparr>valid = True, tag = 0, LRUcount = 2\<rparr>,
                \<lparr>valid = True, tag = 1, LRUcount = 2\<rparr>]],
      hit = 1, miss = 2, accesscount = 3\<rparr>"
  by code_simp

lemma two_way_modified_ABAC:
  "replay CacheAccess_modified 2 16 1 [0x00, 0x10, 0x00, 0x20] (fresh 1 2) =
     \<lparr>cache = [[\<lparr>valid = True, tag = 2, LRUcount = 3\<rparr>,
                \<lparr>valid = True, tag = 1, LRUcount = 3\<rparr>]],
      hit = 1, miss = 3, accesscount = 4\<rparr>"
  by code_simp

lemma two_way_ABAC:
  "replay CacheAccess 2 16 1 [0x00, 0x10, 0x00, 0x20] (fresh 1 2) =
     \<lparr>cache = [[\<lparr>valid = True, tag = 0, LRUcount = 2\<rparr>,
                \<lparr>valid = True, tag = 2, LRUcount = 3\<rparr>]],
      hit = 1, miss = 3, accesscount = 4\<rparr>"
  by code_simp

lemma two_way_ABACA:
  "replay CacheAccess 2 16 1 [0x00, 0x10, 0x00, 0x20, 0x00] (fresh 1 2) =
     \<lparr>cache = [[\<lparr>valid = True, tag = 0, LRUcount = 4\<rparr>,
                \<lparr>valid = True, tag = 2, LRUcount = 3\<rparr>]],
      hit = 2, miss = 3, accesscount = 5\<rparr>"
  by code_simp

lemma two_way_modified_ABACA:
  "replay CacheAccess_modified 2 16 1 [0x00, 0x10, 0x00, 0x20, 0x00] (fresh 1 2) =
     \<lparr>cache = [[\<lparr>valid = True, tag = 0, LRUcount = 4\<rparr>,
                \<lparr>valid = True, tag = 1, LRUcount = 4\<rparr>]],
      hit = 1, miss = 4, accesscount = 5\<rparr>"
  by code_simp

text \<open>
  Claim C1. In \<^verbatim>\<open>modified.cpp\<close> with associativity 2 and an empty set, the accesses
  \<open>A, B, A, C\<close> leave both lines with \<^verbatim>\<open>LRUcount\<close> 2 after the hit on \<open>A\<close> (the hit stamps
  \<open>A\<close> with the access count 2 and the ageing loop raises \<open>B\<close> from 1 to 2); the miss on
  \<open>C\<close> then takes line 0, which holds \<open>A\<close>. The set ends with \<open>C\<close> and \<open>B\<close>: the code
  evicts \<open>A\<close>, where the claim says \<open>B\<close>.
\<close>

theorem full_order_ABAC_evicts_A:
  "cache (replay CacheAccess_modified 2 16 1 [0x00, 0x10, 0x00] (fresh 1 2)) =
     [[\<lparr>valid = True, tag = 0, LRUcount = 2\<rparr>, \<lparr>valid = True, tag = 1, LRUcount = 2\<rparr>]] \<and>
   cache (replay CacheAccess_modified 2 16 1 [0x00, 0x10, 0x00, 0x20] (fresh 1 2)) =
     [[\<lparr>valid = True, tag = 2, LRUcount = 3\<rparr>, \<lparr>valid = True, tag = 1, LRUcount = 3\<rparr>]]"
  by (simp only: two_way_modified_ABA two_way_modified_ABAC sim_state.simps simp_thms)

text \<open>
  Claim C7. The two files are observably different: with one set of two lines and blocks
  of 16 bytes, the trace \<open>A, B, A, C, A\<close> ends with 2 hits in the touch-only file and
  with 1 hit in \<^verbatim>\<open>modified.cpp\<close> (the fifth access is a hit in the first and a miss in
  the second), and after \<open>A, B, A, C\<close> the two sets hold different tags.
\<close>

theorem variants_observably_different:
  "\<exists>setAssociativity blockSize cacheLineNum addresses.
     hit (replay CacheAccess setAssociativity blockSize cacheLineNum addresses
            (fresh (unat cacheLineNum) setAssociativity)) \<noteq>
     hit (replay CacheAccess_modified setAssociativity blockSize cacheLineNum addresses
            (fresh (unat cacheLineNum) setAssociativity)) \<and>
     map (map tag) (cache (replay CacheAccess setAssociativity blockSize cacheLineNum
            (butlast addresses) (fresh (unat cacheLineNum) setAssociativity))) \<noteq>
     map (map tag) (cache (replay CacheAccess_modified setAssociativity blockSize cacheLineNum
            (butlast addresses) (fresh (unat cacheLineNum) setAssociativity)))"
proof -
  have classification:
    "hit (replay CacheAccess 2 16 1 [0x00, 0x10, 0x00, 0x20, 0x00] (fresh 1 2)) \<noteq>
     hit (replay CacheAccess_modified 2 16 1 [0x00, 0x10, 0x00, 0x20, 0x00] (fresh 1 2))"
    unfolding two_way_ABACA two_way_modified_ABACA by simp
  have eviction:
    "map (map tag) (cache (replay CacheAccess 2 16 1
        (butlast [0x00, 0x10, 0x00, 0x20, 0x00]) (fresh 1 2))) \<noteq>
     map (map tag) (cache (replay CacheAccess_modified 2 16 1
        (butlast [0x00, 0x10, 0x00, 0x20, 0x00]) (fresh 1 2)))"
  proof -
    have prefix: "butlast [0x00, 0x10, 0x00, 0x20, 0x00 :: uint32_t] = [0x00, 0x10, 0x00, 0x20]"
      by simp
    show ?thesis
      unfolding prefix two_way_ABAC two_way_modified_ABAC by simp
  qed
  have one: "unat (1 :: uint32_t) = 1" by simp
  show ?thesis
    by (rule exI [of _ 2], rule exI [of _ 16], rule exI [of _ 1],
        rule exI [of _ "[0x00, 0x10, 0x00, 0x20, 0x00]"])
       (simp only: one classification eviction simp_thms)
qed

section \<open>Address decoding: powers of two and bounds\<close>

lemma floor_log2_pow2: "floor_log2 (2 ^ k) = k"
proof (induction k)
  case 0
  show ?case by (simp add: floor_log2.simps)
next
  case (Suc k)
  have "floor_log2 (2 ^ Suc k) = Suc (floor_log2 (2 ^ Suc k div 2))"
    by (subst floor_log2.simps) simp
  then show ?case using Suc by simp
qed

lemma floor_log2_le: "0 < n \<Longrightarrow> 2 ^ floor_log2 n \<le> n"
proof (induction n rule: floor_log2.induct)
  case (1 n)
  show ?case
  proof (cases "n < 2")
    case True
    with 1(2) show ?thesis by (simp add: floor_log2.simps)
  next
    case False
    then have "2 ^ floor_log2 (n div 2) \<le> n div 2" using 1 by simp
    then have "2 * 2 ^ floor_log2 (n div 2) \<le> n" by linarith
    with False show ?thesis by (subst floor_log2.simps) simp
  qed
qed

lemma pow2_pos: "k < 32 \<Longrightarrow> (0 :: uint32_t) < 2 ^ k"
  by (simp add: word_gt_0)

lemma unat_pow2: "k < 32 \<Longrightarrow> unat (2 ^ k :: uint32_t) = 2 ^ k"
proof -
  assume k: "k < 32"
  have "uint (2 ^ k :: uint32_t) = 2 ^ k" by (rule uint_2p [OF pow2_pos [OF k]])
  then have "nat (uint (2 ^ k :: uint32_t)) = nat (2 ^ k)" by (rule arg_cong)
  then show ?thesis by (simp only: unat_eq_nat_uint nat_power_eq nat_numeral zero_le_numeral)
qed

lemma log2_u32_pow2: "k < 32 \<Longrightarrow> log2_u32 (2 ^ k) = k"
  by (simp only: log2_u32_def unat_pow2 floor_log2_pow2)

lemma log2_u32_le: "x \<noteq> 0 \<Longrightarrow> 2 ^ log2_u32 x \<le> unat x"
  unfolding log2_u32_def by (rule floor_log2_le) (simp add: unat_gt_0)

lemma getIndex_take_bit:
  "getIndex address blockSize cacheLineNum =
     take_bit (log2_u32 cacheLineNum) (drop_bit (log2_u32 blockSize) address)"
  by (simp add: getIndex_def Let_def take_bit_eq_mask mask_eq_exp_minus_1)

lemma unat_take_bit_less: "unat (take_bit m (w :: uint32_t)) < 2 ^ m"
  by (simp add: unsigned_take_bit_eq)

lemma getIndex_less:
  assumes "cacheLineNum \<noteq> 0"
  shows "unat (getIndex address blockSize cacheLineNum) < unat cacheLineNum"
proof -
  have "unat (getIndex address blockSize cacheLineNum) < 2 ^ log2_u32 cacheLineNum"
    unfolding getIndex_take_bit by (rule unat_take_bit_less)
  also have "\<dots> \<le> unat cacheLineNum" using assms by (rule log2_u32_le)
  finally show ?thesis .
qed

section \<open>The scans\<close>

lemma scan_None:
  "hit_scan lns n tg i = None \<Longrightarrow> i \<le> j \<Longrightarrow> j < n \<Longrightarrow> \<not> (valid (lns ! j) \<and> tag (lns ! j) = tg)"
proof (induction lns n tg i rule: hit_scan.induct)
  case (1 lns n tg i)
  from "1.prems" have "i < n" by simp
  with "1.prems"(1) have nomatch: "\<not> (valid (lns ! i) \<and> tag (lns ! i) = tg)"
    and rest: "hit_scan lns n tg (Suc i) = None"
    by (subst (asm) hit_scan.simps, simp split: if_splits)+
  show ?case
  proof (cases "j = i")
    case True with nomatch show ?thesis by simp
  next
    case False
    with "1.prems" have "Suc i \<le> j" by simp
    with "1.IH" [OF \<open>i < n\<close> nomatch rest] "1.prems" show ?thesis by simp
  qed
qed

lemma scan_Some:
  "hit_scan lns n tg i = Some k \<Longrightarrow> i \<le> k \<and> k < n \<and> valid (lns ! k) \<and> tag (lns ! k) = tg"
proof (induction lns n tg i rule: hit_scan.induct)
  case (1 lns n tg i)
  show ?case
  proof (cases "i < n \<and> \<not> (valid (lns ! i) \<and> tag (lns ! i) = tg)")
    case True
    with "1.prems" have "hit_scan lns n tg (Suc i) = Some k"
      by (subst (asm) hit_scan.simps) simp
    with "1.IH" True show ?thesis by fastforce
  next
    case False
    with "1.prems" show ?thesis
      by (subst (asm) hit_scan.simps) (auto split: if_splits)
  qed
qed

lemma miss_scan_less:
  "tracker < n \<Longrightarrow> miss_scan lns n i tracker minUsed < n"
proof (induction lns n i tracker minUsed rule: miss_scan.induct)
  case (1 lns n i tracker minUsed)
  show ?case
  proof (cases "i < n")
    case False
    with "1.prems" show ?thesis by (subst miss_scan.simps) simp
  next
    case True
    show ?thesis
    proof (cases "valid (lns ! i)")
      case False
      with True show ?thesis by (subst miss_scan.simps) simp
    next
      case v: True
      show ?thesis
      proof (cases "LRUcount (lns ! i) < minUsed")
        case True
        with \<open>i < n\<close> v "1.IH"(1) show ?thesis by (subst miss_scan.simps) simp
      next
        case False
        with \<open>i < n\<close> v "1.IH"(2) "1.prems" show ?thesis by (subst miss_scan.simps) simp
      qed
    qed
  qed
qed

lemma miss_scan_first_invalid:
  "i \<le> j \<Longrightarrow> j < n \<Longrightarrow> \<not> valid (lns ! j) \<Longrightarrow>
   i \<le> miss_scan lns n i tracker minUsed \<and> miss_scan lns n i tracker minUsed \<le> j \<and>
   \<not> valid (lns ! miss_scan lns n i tracker minUsed) \<and>
   (\<forall>k. i \<le> k \<and> k < miss_scan lns n i tracker minUsed \<longrightarrow> valid (lns ! k))"
proof (induction lns n i tracker minUsed rule: miss_scan.induct)
  case (1 lns n i tracker minUsed)
  from "1.prems" have lt: "i < n" by simp
  show ?case
  proof (cases "valid (lns ! i)")
    case False
    with lt have "miss_scan lns n i tracker minUsed = i" by (subst miss_scan.simps) simp
    with False "1.prems" show ?thesis by auto
  next
    case v: True
    with "1.prems" have "j \<noteq> i" by auto
    with "1.prems" have sj: "Suc i \<le> j" by simp
    show ?thesis
    proof (cases "LRUcount (lns ! i) < minUsed")
      case True
      with lt v have eq: "miss_scan lns n i tracker minUsed =
          miss_scan lns n (Suc i) i (LRUcount (lns ! i))" by (subst miss_scan.simps) simp
      from "1.IH"(1) [OF lt _ True sj "1.prems"(2,3)] v
      have ih: "Suc i \<le> miss_scan lns n (Suc i) i (LRUcount (lns ! i)) \<and>
          miss_scan lns n (Suc i) i (LRUcount (lns ! i)) \<le> j \<and>
          \<not> valid (lns ! miss_scan lns n (Suc i) i (LRUcount (lns ! i))) \<and>
          (\<forall>k. Suc i \<le> k \<and> k < miss_scan lns n (Suc i) i (LRUcount (lns ! i)) \<longrightarrow> valid (lns ! k))"
        by simp
      show ?thesis unfolding eq using ih v
        by (metis Suc_leD le_antisym not_less_eq_eq)
    next
      case False
      with lt v have eq: "miss_scan lns n i tracker minUsed =
          miss_scan lns n (Suc i) tracker minUsed" by (subst miss_scan.simps) simp
      from "1.IH"(2) [OF lt _ False sj "1.prems"(2,3)] v
      have ih: "Suc i \<le> miss_scan lns n (Suc i) tracker minUsed \<and>
          miss_scan lns n (Suc i) tracker minUsed \<le> j \<and>
          \<not> valid (lns ! miss_scan lns n (Suc i) tracker minUsed) \<and>
          (\<forall>k. Suc i \<le> k \<and> k < miss_scan lns n (Suc i) tracker minUsed \<longrightarrow> valid (lns ! k))"
        by simp
      show ?thesis unfolding eq using ih v
        by (metis Suc_leD le_antisym not_less_eq_eq)
    qed
  qed
qed

lemma scan_inv_start: "scan_inv lns 0 0 (- 1)"
  by (simp add: scan_inv_def)

lemma scan_inv_take:
  assumes "scan_inv lns i tracker minUsed" "LRUcount (lns ! i) < minUsed"
  shows "scan_inv lns (Suc i) i (LRUcount (lns ! i))"
  unfolding scan_inv_def
proof (intro conjI)
  show "\<forall>j<Suc i. LRUcount (lns ! i) \<le> LRUcount (lns ! j)"
  proof (intro allI impI)
    fix j assume "j < Suc i"
    then consider "j = i" | "j < i" by linarith
    then show "LRUcount (lns ! i) \<le> LRUcount (lns ! j)"
    proof cases
      case 1 then show ?thesis by simp
    next
      case 2
      with assms(1) have "minUsed \<le> LRUcount (lns ! j)" unfolding scan_inv_def by blast
      with assms(2) show ?thesis by simp
    qed
  qed
  show "\<forall>j<i. LRUcount (lns ! i) < LRUcount (lns ! j)"
  proof (intro allI impI)
    fix j assume "j < i"
    with assms(1) have "minUsed \<le> LRUcount (lns ! j)" unfolding scan_inv_def by blast
    with assms(2) show "LRUcount (lns ! i) < LRUcount (lns ! j)" by simp
  qed
  show "if Suc i = 0 then i = 0 \<and> LRUcount (lns ! i) = - 1
        else i < Suc i \<and> LRUcount (lns ! i) = LRUcount (lns ! i)" by simp
qed

lemma scan_inv_keep:
  assumes "scan_inv lns i tracker minUsed" "\<not> LRUcount (lns ! i) < minUsed"
  shows "scan_inv lns (Suc i) tracker minUsed"
proof (cases "i = 0")
  case True
  with assms(1) have t: "tracker = 0" and m: "minUsed = - 1" by (simp_all add: scan_inv_def)
  from assms(2) m have "LRUcount (lns ! 0) = - 1" using True
    by (metis word_order.extremum_strict word_order.not_eq_extremum)
  with t m True show ?thesis by (simp add: scan_inv_def)
next
  case False
  with assms(1) have a: "\<forall>j<i. minUsed \<le> LRUcount (lns ! j)"
    and b: "\<forall>j<tracker. minUsed < LRUcount (lns ! j)"
    and c: "tracker < i" "minUsed = LRUcount (lns ! tracker)"
    unfolding scan_inv_def by auto
  have "\<forall>j<Suc i. minUsed \<le> LRUcount (lns ! j)"
    using a assms(2) by (auto simp: less_Suc_eq)
  with b c show ?thesis unfolding scan_inv_def by auto
qed

lemma miss_scan_min:
  "scan_inv lns i tracker minUsed \<Longrightarrow> i \<le> n \<Longrightarrow> 0 < n \<Longrightarrow>
   (\<forall>j. i \<le> j \<and> j < n \<longrightarrow> valid (lns ! j)) \<Longrightarrow>
   (\<forall>j<n. LRUcount (lns ! miss_scan lns n i tracker minUsed) \<le> LRUcount (lns ! j)) \<and>
   (\<forall>j<miss_scan lns n i tracker minUsed.
      LRUcount (lns ! miss_scan lns n i tracker minUsed) < LRUcount (lns ! j))"
proof (induction lns n i tracker minUsed rule: miss_scan.induct)
  case (1 lns n i tracker minUsed)
  show ?case
  proof (cases "i < n")
    case False
    with "1.prems" have "i = n" "i \<noteq> 0" by simp_all
    moreover from False have "miss_scan lns n i tracker minUsed = tracker"
      by (subst miss_scan.simps) simp
    ultimately show ?thesis using "1.prems"(1) unfolding scan_inv_def by auto
  next
    case lt: True
    with "1.prems" have v: "valid (lns ! i)" by simp
    from lt have le: "Suc i \<le> n" by simp
    from "1.prems"(4) have rest: "\<forall>j. Suc i \<le> j \<and> j < n \<longrightarrow> valid (lns ! j)" by simp
    show ?thesis
    proof (cases "LRUcount (lns ! i) < minUsed")
      case True
      with lt v have eq: "miss_scan lns n i tracker minUsed =
          miss_scan lns n (Suc i) i (LRUcount (lns ! i))" by (subst miss_scan.simps) simp
      show ?thesis unfolding eq
        using "1.IH"(1) [OF lt _ True scan_inv_take [OF "1.prems"(1) True] le "1.prems"(3) rest] v
        by simp
    next
      case False
      with lt v have eq: "miss_scan lns n i tracker minUsed =
          miss_scan lns n (Suc i) tracker minUsed" by (subst miss_scan.simps) simp
      show ?thesis unfolding eq
        using "1.IH"(2) [OF lt _ False scan_inv_keep [OF "1.prems"(1) False] le "1.prems"(3) rest] v
        by simp
    qed
  qed
qed

section \<open>The set invariant\<close>

lemma victim_less: "0 < n \<Longrightarrow> victim lns n < n"
  unfolding victim_def by (rule miss_scan_less)

lemma age_others_length: "length (age_others lns n k j) = length lns"
proof (induction lns n k j rule: age_others.induct)
  case (1 lns n k j)
  show ?case
  proof (cases "j < n")
    case True
    with "1.IH" show ?thesis by (subst age_others.simps) simp
  next
    case False
    then show ?thesis by (subst age_others.simps) simp
  qed
qed

lemma nth_touch:
  "j < length lns \<Longrightarrow>
   valid (lns[i := (lns ! i)\<lparr>LRUcount := x\<rparr>] ! j) = valid (lns ! j) \<and>
   tag (lns[i := (lns ! i)\<lparr>LRUcount := x\<rparr>] ! j) = tag (lns ! j)"
  by (cases "i = j") simp_all

lemma age_others_nth:
  "i < length lns \<Longrightarrow>
   valid (age_others lns n k j ! i) = valid (lns ! i) \<and>
   tag (age_others lns n k j ! i) = tag (lns ! i)"
proof (induction lns n k j rule: age_others.induct)
  case (1 lns n k j)
  show ?case
  proof (cases "j < n")
    case True
    let ?lns' = "if k \<noteq> j \<and> valid (lns ! j)
                 then lns[j := (lns ! j)\<lparr>LRUcount := LRUcount (lns ! j) + 1\<rparr>] else lns"
    have len: "i < length ?lns'" using "1.prems" by simp
    have same: "valid (?lns' ! i) = valid (lns ! i) \<and> tag (?lns' ! i) = tag (lns ! i)"
      using "1.prems" by (simp add: nth_touch)
    have "age_others lns n k j = age_others ?lns' n k (Suc j)"
      using True by (subst age_others.simps) simp
    with "1.IH" [OF True len] same show ?thesis by simp
  next
    case False
    then have "age_others lns n k j = lns" by (subst age_others.simps) simp
    then show ?thesis by simp
  qed
qed

lemma set_ok_same:
  assumes "set_ok n lns" "length lns' = n"
    and "\<And>i. i < n \<Longrightarrow> valid (lns' ! i) = valid (lns ! i) \<and> tag (lns' ! i) = tag (lns ! i)"
  shows "set_ok n lns'"
  using assms unfolding set_ok_def by metis

lemma set_ok_touch:
  assumes "set_ok n lns"
  shows "set_ok n (lns[i := (lns ! i)\<lparr>LRUcount := x\<rparr>])"
proof (rule set_ok_same [OF assms])
  show "length (lns[i := (lns ! i)\<lparr>LRUcount := x\<rparr>]) = n" using assms by (simp add: set_ok_def)
  fix j assume "j < n"
  then have "j < length lns" using assms by (simp add: set_ok_def)
  then show "valid (lns[i := (lns ! i)\<lparr>LRUcount := x\<rparr>] ! j) = valid (lns ! j) \<and>
             tag (lns[i := (lns ! i)\<lparr>LRUcount := x\<rparr>] ! j) = tag (lns ! j)"
    by (rule nth_touch)
qed

lemma set_ok_age:
  assumes "set_ok n lns"
  shows "set_ok n (age_others lns m k j)"
proof (rule set_ok_same [OF assms])
  show "length (age_others lns m k j) = n" using assms by (simp add: set_ok_def age_others_length)
  fix i assume "i < n"
  then have "i < length lns" using assms by (simp add: set_ok_def)
  then show "valid (age_others lns m k j ! i) = valid (lns ! i) \<and>
             tag (age_others lns m k j ! i) = tag (lns ! i)"
    by (rule age_others_nth)
qed

lemma set_ok_install:
  assumes ok: "set_ok n lns" and v: "v < n"
    and miss: "\<forall>j<n. \<not> (valid (lns ! j) \<and> tag (lns ! j) = tg)"
  shows "set_ok n (lns[v := \<lparr>valid = True, tag = tg, LRUcount = x\<rparr>])"
  unfolding set_ok_def
proof (intro conjI allI impI)
  let ?l = "lns[v := \<lparr>valid = True, tag = tg, LRUcount = x\<rparr>]"
  from ok have len: "length lns = n" by (simp add: set_ok_def)
  then show "length ?l = n" by simp
  fix i j assume i: "i < n" and j: "j < n" and h: "i \<noteq> j \<and> valid (?l ! i) \<and> valid (?l ! j)"
  show "tag (?l ! i) \<noteq> tag (?l ! j)"
  proof (cases "i = v")
    case True
    with h have "j \<noteq> v" by simp
    with h j len have "valid (lns ! j)" by simp
    with miss j have "tag (lns ! j) \<noteq> tg" by blast
    with True \<open>j \<noteq> v\<close> len v show ?thesis by simp
  next
    case iv: False
    with h i len have vi: "valid (lns ! i)" by simp
    show ?thesis
    proof (cases "j = v")
      case True
      from vi miss i have "tag (lns ! i) \<noteq> tg" by blast
      with True iv len v show ?thesis by simp
    next
      case False
      with h j len have "valid (lns ! j)" by simp
      with vi ok i j h have "tag (lns ! i) \<noteq> tag (lns ! j)" unfolding set_ok_def by blast
      with iv False show ?thesis by simp
    qed
  qed
qed

lemma cache_inv_update:
  assumes "cache_inv c n s" "set_ok n m" "cache s' = (cache s)[idx := m]"
  shows "cache_inv c n s'"
proof -
  have "set ((cache s)[idx := m]) \<subseteq> insert m (set (cache s))"
    by (rule set_update_subset_insert)
  with assms show ?thesis unfolding cache_inv_def by auto
qed

lemma CacheAccess_inv:
  assumes inv: "cache_inv c n s" and n: "0 < n"
    and idx: "unat (getIndex address blockSize cacheLineNum) < c"
  shows "cache_inv c n (CacheAccess address n blockSize cacheLineNum s)"
proof -
  let ?idx = "unat (getIndex address blockSize cacheLineNum)"
  let ?tg = "getTag address blockSize cacheLineNum"
  let ?lns = "cache s ! ?idx"
  from inv idx have ok: "set_ok n ?lns" unfolding cache_inv_def by simp
  show ?thesis
  proof (cases "hit_scan ?lns n ?tg 0")
    case None
    then have "\<forall>j<n. \<not> (valid (?lns ! j) \<and> tag (?lns ! j) = ?tg)"
      using scan_None by blast
    then have "set_ok n (?lns[victim ?lns n := \<lparr>valid = True, tag = ?tg, LRUcount = accesscount s\<rparr>])"
      by (rule set_ok_install [OF ok victim_less [OF n]])
    then show ?thesis
      by (rule cache_inv_update [OF inv]) (simp add: CacheAccess_def Let_def None)
  next
    case (Some i)
    have "set_ok n (?lns[i := (?lns ! i)\<lparr>LRUcount := accesscount s\<rparr>])"
      by (rule set_ok_touch [OF ok])
    then show ?thesis
      by (rule cache_inv_update [OF inv]) (simp add: CacheAccess_def Let_def Some)
  qed
qed

lemma CacheAccess_modified_inv:
  assumes inv: "cache_inv c n s" and n: "0 < n"
    and idx: "unat (getIndex address blockSize cacheLineNum) < c"
  shows "cache_inv c n (CacheAccess_modified address n blockSize cacheLineNum s)"
proof -
  let ?idx = "unat (getIndex address blockSize cacheLineNum)"
  let ?tg = "getTag address blockSize cacheLineNum"
  let ?lns = "cache s ! ?idx"
  from inv idx have ok: "set_ok n ?lns" unfolding cache_inv_def by simp
  show ?thesis
  proof (cases "hit_scan ?lns n ?tg 0")
    case None
    then have "\<forall>j<n. \<not> (valid (?lns ! j) \<and> tag (?lns ! j) = ?tg)"
      using scan_None by blast
    then have "set_ok n (?lns[victim ?lns n := \<lparr>valid = True, tag = ?tg, LRUcount = accesscount s\<rparr>])"
      by (rule set_ok_install [OF ok victim_less [OF n]])
    then have "set_ok n (age_others
        (?lns[victim ?lns n := \<lparr>valid = True, tag = ?tg, LRUcount = accesscount s\<rparr>])
        n (victim ?lns n) 0)"
      by (rule set_ok_age)
    then show ?thesis
      by (rule cache_inv_update [OF inv]) (simp add: CacheAccess_modified_def Let_def None)
  next
    case (Some i)
    have "set_ok n (?lns[i := (?lns ! i)\<lparr>LRUcount := accesscount s\<rparr>])"
      by (rule set_ok_touch [OF ok])
    then have "set_ok n (age_others (?lns[i := (?lns ! i)\<lparr>LRUcount := accesscount s\<rparr>]) n i 0)"
      by (rule set_ok_age)
    then show ?thesis
      by (rule cache_inv_update [OF inv]) (simp add: CacheAccess_modified_def Let_def Some)
  qed
qed

lemma fresh_inv: "cache_inv c n (fresh c n)"
  by (auto simp: cache_inv_def fresh_def set_ok_def CacheMem_new_def CacheLine_new_def)

lemma replay_inv:
  assumes step: "\<And>address s. cache_inv c n s \<Longrightarrow> cache_inv c n (access address n blockSize cacheLineNum s)"
  shows "cache_inv c n s \<Longrightarrow> cache_inv c n (replay access n blockSize cacheLineNum addresses s)"
  unfolding replay_def
  by (induction addresses arbitrary: s) (simp_all add: step)

lemma replay_CacheAccess_inv:
  assumes "cacheLineNum \<noteq> 0" "0 < n"
  shows "cache_inv (unat cacheLineNum) n
           (replay CacheAccess n blockSize cacheLineNum addresses (fresh (unat cacheLineNum) n))"
  by (rule replay_inv) (simp_all add: CacheAccess_inv getIndex_less assms fresh_inv)

lemma replay_CacheAccess_modified_inv:
  assumes "cacheLineNum \<noteq> 0" "0 < n"
  shows "cache_inv (unat cacheLineNum) n
           (replay CacheAccess_modified n blockSize cacheLineNum addresses (fresh (unat cacheLineNum) n))"
  by (rule replay_inv) (simp_all add: CacheAccess_modified_inv getIndex_less assms fresh_inv)

lemma cache_inv_claim:
  assumes "cache_inv c n s" "m \<in> set (cache s)"
  shows "length m = n \<and> length (filter valid m) \<le> n \<and>
     (\<forall>i<length m. \<forall>j<length m. i \<noteq> j \<and> valid (m ! i) \<and> valid (m ! j) \<longrightarrow> tag (m ! i) \<noteq> tag (m ! j))"
proof -
  from assms have ok: "set_ok n m" unfolding cache_inv_def by blast
  then have len: "length m = n" by (simp add: set_ok_def)
  have "length (filter valid m) \<le> length m" by (rule length_filter_le)
  with ok len show ?thesis unfolding set_ok_def by simp
qed

section \<open>Counters\<close>








lemma CacheAccess_length:
  "length (cache (CacheAccess address n blockSize cacheLineNum s)) = length (cache s)"
  by (simp add: CacheAccess_def Let_def split: option.split)

lemma CacheAccess_modified_length:
  "length (cache (CacheAccess_modified address n blockSize cacheLineNum s)) = length (cache s)"
  by (simp add: CacheAccess_modified_def Let_def split: option.split)

lemma replay_length:
  assumes "\<And>address s. length (cache (access address n blockSize cacheLineNum s)) = length (cache s)"
  shows "length (cache (replay access n blockSize cacheLineNum addresses s)) = length (cache s)"
  unfolding replay_def
  by (induction addresses arbitrary: s) (simp_all add: assms)

lemma fresh_length: "length (cache (fresh c n)) = c"
  by (simp add: fresh_def)

lemma dec_less: "(x :: uint32_t) \<noteq> 0 \<Longrightarrow> x - 1 < x"
  by (metis less_eq_dec_self_iff_eq not_le)

lemma simulateCache_with_zero:
  assumes "blockSize * setAssociativity \<noteq> 0"
    and "cacheSize div (blockSize * setAssociativity) = 0"
  shows "simulateCache_with access cacheSize blockSize setAssociativity traceFile tracefile =
         InvalidConfiguration"
  using assms by (simp add: simulateCache_with_def)

lemma simulateCache_with_empty:
  assumes "blockSize * setAssociativity \<noteq> 0"
    and "cacheSize div (blockSize * setAssociativity) \<noteq> 0"
    and "0 \<le> sint setAssociativity"
  shows "simulateCache_with access cacheSize blockSize setAssociativity traceFile (Some []) =
         Row \<lparr>traceName = traceFile, cacheSizeKB = cacheSize div 1024,
              blockSizeBytes = blockSize, associativity = setAssociativity,
              hitRate = NaN, missRate = NaN\<rparr>"
  using assms
  by (simp add: simulateCache_with_def Let_def replay_def fresh_def double_div_def)

section \<open>The claims on decoding\<close>

lemma log2_u32_65536: "log2_u32 0x10000 = 16"
  using log2_u32_pow2 [of 16] by simp

text \<open>
  Claim C8, as the specification states it, fails for the tag: for
  \<open>blockSize = numSets = 2 ^ 16\<close> the shift count is 32, and \<^verbatim>\<open>getTag\<close> returns the address
  unchanged, not the address shifted right by 32 bits (which is 0).
\<close>

theorem tag_shift_by_32_counterexample:
  "(0x10000 :: uint32_t) = 2 ^ 16 \<and>
   getTag 0x12345678 0x10000 0x10000 = 0x12345678 \<and>
   drop_bit (16 + 16) (0x12345678 :: uint32_t) = 0"
  by (simp add: getTag_def log2_u32_65536 drop_bit_eq_div)

text \<open>
  Claim C8, amended. For \<open>blockSize = 2 ^ k\<close> and \<open>numSets = 2 ^ m\<close> (both 32-bit, so
  \<open>k, m < 32\<close>) the truncated logarithms are \<open>k\<close> and \<open>m\<close> and the decoded index is
  \<open>(address >> k) & (numSets - 1)\<close>, for every address; when moreover \<open>k + m < 32\<close>, the
  decoded tag is \<open>address >> (k + m)\<close>.
\<close>

theorem decode_power_of_two:
  assumes "k < 32" and "m < 32" and "blockSize = 2 ^ k" and "numSets = 2 ^ m"
  shows "log2_u32 blockSize = k \<and> log2_u32 numSets = m \<and>
         getIndex address blockSize numSets = drop_bit k address AND (numSets - 1) \<and>
         (k + m < 32 \<longrightarrow> getTag address blockSize numSets = drop_bit (k + m) address)"
  using assms by (simp add: getIndex_def getTag_def log2_u32_pow2)

theorem decode_power_of_two_witness:
  "(4 :: nat) < 32 \<and> (2 :: nat) < 32 \<and> (16 :: uint32_t) = 2 ^ 4 \<and> (4 :: uint32_t) = 2 ^ 2 \<and>
   (4 :: nat) + 2 < 32 \<and>
   log2_u32 16 = 4 \<and> log2_u32 4 = 2 \<and>
   getIndex 0x1234 16 4 = 3 \<and> getTag 0x1234 16 4 = 0x48"
  using decode_power_of_two [of 4 2 16 4 "0x1234"] by simp

theorem getIndex_in_bounds:
  assumes "k < 32" and "m < 32" and "blockSize = 2 ^ k" and "cacheLineNum = 2 ^ m"
  shows "getIndex address blockSize cacheLineNum < cacheLineNum \<and>
         unat (getIndex address blockSize cacheLineNum) <
           length (cache (replay CacheAccess n blockSize cacheLineNum addresses
                            (fresh (unat cacheLineNum) n))) \<and>
         unat (getIndex address blockSize cacheLineNum) <
           length (cache (replay CacheAccess_modified n blockSize cacheLineNum addresses
                            (fresh (unat cacheLineNum) n)))"
proof -
  from assms(2,4) have "(0 :: uint32_t) < cacheLineNum" by (simp only: pow2_pos)
  then have nz: "cacheLineNum \<noteq> 0" by simp
  have below: "unat (getIndex address blockSize cacheLineNum) < unat cacheLineNum"
    by (rule getIndex_less [OF nz])
  then have "getIndex address blockSize cacheLineNum < cacheLineNum"
    by (simp only: word_less_nat_alt)
  moreover have "length (cache (replay CacheAccess n blockSize cacheLineNum addresses
      (fresh (unat cacheLineNum) n))) = unat cacheLineNum"
    by (simp only: replay_length [of CacheAccess, OF CacheAccess_length] fresh_length)
  moreover have "length (cache (replay CacheAccess_modified n blockSize cacheLineNum addresses
      (fresh (unat cacheLineNum) n))) = unat cacheLineNum"
    by (simp only: replay_length [of CacheAccess_modified, OF CacheAccess_modified_length]
        fresh_length)
  ultimately show ?thesis using below by simp
qed

theorem getIndex_in_bounds_witness:
  "(2 :: nat) < 32 \<and> (3 :: nat) < 32 \<and> (4 :: uint32_t) = 2 ^ 2 \<and> (8 :: uint32_t) = 2 ^ 3 \<and>
   getIndex 0xFFFFFFFF 4 8 < 8 \<and>
   unat (getIndex 0xFFFFFFFF 4 8) <
     length (cache (replay CacheAccess 4 4 8 [0xFFFFFFFF, 0x0] (fresh (unat (8 :: uint32_t)) 4))) \<and>
   unat (getIndex 0xFFFFFFFF 4 8) <
     length (cache (replay CacheAccess_modified 4 4 8 [0xFFFFFFFF, 0x0]
                      (fresh (unat (8 :: uint32_t)) 4)))"
  using getIndex_in_bounds [of 2 3 4 8 "0xFFFFFFFF" 4 "[0xFFFFFFFF, 0x0]"] by simp

section \<open>The claim on the victim\<close>

lemma scan_no_match:
  assumes "\<forall>j<n. \<not> (valid (lns ! j) \<and> tag (lns ! j) = tg)"
  shows "hit_scan lns n tg 0 = None"
proof (cases "hit_scan lns n tg 0")
  case None
  then show ?thesis .
next
  case (Some k)
  from scan_Some [OF Some] assms show ?thesis by blast
qed

lemma victim_first_invalid:
  assumes "j < n" and "\<not> valid (lns ! j)"
  shows "\<not> valid (lns ! victim lns n) \<and> (\<forall>k<victim lns n. valid (lns ! k))"
  using miss_scan_first_invalid [of 0 j n lns 0 "- 1"] assms
  unfolding victim_def by simp

lemma victim_least_recent:
  assumes "0 < n" and "\<forall>j<n. valid (lns ! j)"
  shows "(\<forall>j<n. LRUcount (lns ! victim lns n) \<le> LRUcount (lns ! j)) \<and>
         (\<forall>j<victim lns n. LRUcount (lns ! victim lns n) < LRUcount (lns ! j))"
  unfolding victim_def
  using assms by (intro miss_scan_min [OF scan_inv_start]) simp_all

text \<open>
  Claim C4. A miss is an access whose tag \<open>tg\<close> matches no valid line of its set
  \<open>lns\<close>. Then, in both files, the line that is overwritten is line \<open>v\<close>, the result of
  the miss loop, and
  \<^item> \<open>v\<close> is an index of the set;
  \<^item> if some line is invalid, \<open>v\<close> is the first invalid line in index order;
  \<^item> if every line is valid, line \<open>v\<close> has the smallest \<^verbatim>\<open>LRUcount\<close> (compared as unsigned
    values, as the source's comparison with the \<^verbatim>\<open>uint32_t\<close> \<open>minUsed\<close> does), and every
    line before \<open>v\<close> has a strictly larger one: ties go to the lowest index.
\<close>

theorem miss_victim_priority:
  assumes "0 < n"
    and "idx = unat (getIndex address blockSize cacheLineNum)"
    and "tg = getTag address blockSize cacheLineNum"
    and "lns = cache s ! idx"
    and "\<forall>j<n. \<not> (valid (lns ! j) \<and> tag (lns ! j) = tg)"
    and "v = victim lns n"
  shows "v < n \<and>
     ((\<exists>j<n. \<not> valid (lns ! j)) \<longrightarrow> \<not> valid (lns ! v) \<and> (\<forall>j<v. valid (lns ! j))) \<and>
     ((\<forall>j<n. valid (lns ! j)) \<longrightarrow>
        (\<forall>j<n. LRUcount (lns ! v) \<le> LRUcount (lns ! j)) \<and>
        (\<forall>j<v. LRUcount (lns ! v) < LRUcount (lns ! j))) \<and>
     cache (CacheAccess address n blockSize cacheLineNum s) =
       (cache s)[idx := lns[v := \<lparr>valid = True, tag = tg, LRUcount = accesscount s\<rparr>]] \<and>
     cache (CacheAccess_modified address n blockSize cacheLineNum s) =
       (cache s)[idx := age_others
          (lns[v := \<lparr>valid = True, tag = tg, LRUcount = accesscount s\<rparr>]) n v 0] \<and>
     miss (CacheAccess address n blockSize cacheLineNum s) = miss s + 1 \<and>
     miss (CacheAccess_modified address n blockSize cacheLineNum s) = miss s + 1"
proof -
  have none: "hit_scan lns n tg 0 = None" by (rule scan_no_match [OF assms(5)])
  have "v < n" unfolding assms(6) by (rule victim_less [OF assms(1)])
  moreover have "(\<exists>j<n. \<not> valid (lns ! j)) \<longrightarrow>
      \<not> valid (lns ! v) \<and> (\<forall>j<v. valid (lns ! j))"
    unfolding assms(6) using victim_first_invalid [of _ n lns] by blast
  moreover have "(\<forall>j<n. valid (lns ! j)) \<longrightarrow>
      (\<forall>j<n. LRUcount (lns ! v) \<le> LRUcount (lns ! j)) \<and>
      (\<forall>j<v. LRUcount (lns ! v) < LRUcount (lns ! j))"
    unfolding assms(6) using victim_least_recent [OF assms(1), of lns] by blast
  moreover have "cache (CacheAccess address n blockSize cacheLineNum s) =
      (cache s)[idx := lns[v := \<lparr>valid = True, tag = tg, LRUcount = accesscount s\<rparr>]]"
    and "miss (CacheAccess address n blockSize cacheLineNum s) = miss s + 1"
    using none unfolding assms(2,3,4,6) by (simp_all add: CacheAccess_def Let_def)
  moreover have "cache (CacheAccess_modified address n blockSize cacheLineNum s) =
      (cache s)[idx := age_others
         (lns[v := \<lparr>valid = True, tag = tg, LRUcount = accesscount s\<rparr>]) n v 0]"
    and "miss (CacheAccess_modified address n blockSize cacheLineNum s) = miss s + 1"
    using none unfolding assms(2,3,4,6) by (simp_all add: CacheAccess_modified_def Let_def)
  ultimately show ?thesis by blast
qed

lemma victim_example:
  "victim [\<lparr>valid = True, tag = 5, LRUcount = 7\<rparr>, \<lparr>valid = True, tag = 6, LRUcount = 3\<rparr>] 2 = 1"
  by code_simp

lemma age_others_example:
  "age_others [\<lparr>valid = True, tag = 5, LRUcount = 7\<rparr>, \<lparr>valid = True, tag = 2, LRUcount = 9\<rparr>]
     2 (Suc 0) 0 =
   [\<lparr>valid = True, tag = 5, LRUcount = 8\<rparr>, \<lparr>valid = True, tag = 2, LRUcount = 9\<rparr>]"
  by code_simp

theorem miss_victim_priority_witness:
  "(0 :: nat) < 2 \<and>
   (0 :: nat) = unat (getIndex 0x20 16 1) \<and>
   (2 :: uint32_t) = getTag 0x20 16 1 \<and>
   tag ([\<lparr>valid = True, tag = 5, LRUcount = 7\<rparr>,
         \<lparr>valid = True, tag = 6, LRUcount = 3\<rparr>] ! 0) \<noteq> (2 :: uint32_t) \<and>
   tag ([\<lparr>valid = True, tag = 5, LRUcount = 7\<rparr>,
         \<lparr>valid = True, tag = 6, LRUcount = 3\<rparr>] ! 1) \<noteq> (2 :: uint32_t) \<and>
   (1 :: nat) =
     victim [\<lparr>valid = True, tag = 5, LRUcount = 7\<rparr>, \<lparr>valid = True, tag = 6, LRUcount = 3\<rparr>] 2 \<and>
   cache (CacheAccess 0x20 2 16 1
     \<lparr>cache = [[\<lparr>valid = True, tag = 5, LRUcount = 7\<rparr>, \<lparr>valid = True, tag = 6, LRUcount = 3\<rparr>]],
      hit = 0, miss = 0, accesscount = 9\<rparr>) =
     [[\<lparr>valid = True, tag = 5, LRUcount = 7\<rparr>, \<lparr>valid = True, tag = 2, LRUcount = 9\<rparr>]] \<and>
   cache (CacheAccess_modified 0x20 2 16 1
     \<lparr>cache = [[\<lparr>valid = True, tag = 5, LRUcount = 7\<rparr>, \<lparr>valid = True, tag = 6, LRUcount = 3\<rparr>]],
      hit = 0, miss = 0, accesscount = 9\<rparr>) =
     [[\<lparr>valid = True, tag = 5, LRUcount = 8\<rparr>, \<lparr>valid = True, tag = 2, LRUcount = 9\<rparr>]]"
proof -
  let ?L = "[\<lparr>valid = True, tag = 5, LRUcount = 7\<rparr>, \<lparr>valid = True, tag = 6, LRUcount = 3\<rparr>]"
  let ?s = "\<lparr>cache = [?L], hit = 0, miss = 0, accesscount = 9\<rparr>"
  have h1: "(0 :: nat) < 2" by simp
  have h2: "(0 :: nat) = unat (getIndex 0x20 16 1)" by code_simp
  have h3: "(2 :: uint32_t) = getTag 0x20 16 1" by code_simp
  have h4: "?L = cache ?s ! 0" by simp
  have h5: "\<forall>j<2. \<not> (valid (?L ! j) \<and> tag (?L ! j) = (2 :: uint32_t))"
  proof (intro allI impI)
    fix j :: nat
    assume "j < 2"
    then consider "j = 0" | "j = 1" by linarith
    then show "\<not> (valid (?L ! j) \<and> tag (?L ! j) = (2 :: uint32_t))"
      by cases simp_all
  qed
  have h6: "(1 :: nat) = victim ?L 2" by (simp only: victim_example)
  from miss_victim_priority [OF h1 h2 h3 h4 h5 h6]
  have "cache (CacheAccess 0x20 2 16 1 ?s) =
          (cache ?s)[0 := ?L[1 := \<lparr>valid = True, tag = 2, LRUcount = accesscount ?s\<rparr>]]"
    and "cache (CacheAccess_modified 0x20 2 16 1 ?s) =
          (cache ?s)[0 := age_others
             (?L[1 := \<lparr>valid = True, tag = 2, LRUcount = accesscount ?s\<rparr>]) 2 1 0]"
    by blast+
  then have "cache (CacheAccess 0x20 2 16 1 ?s) =
          [[\<lparr>valid = True, tag = 5, LRUcount = 7\<rparr>, \<lparr>valid = True, tag = 2, LRUcount = 9\<rparr>]]"
    and "cache (CacheAccess_modified 0x20 2 16 1 ?s) =
          [[\<lparr>valid = True, tag = 5, LRUcount = 8\<rparr>, \<lparr>valid = True, tag = 2, LRUcount = 9\<rparr>]]"
    by (simp_all add: age_others_example)
  moreover have "tag (?L ! 0) \<noteq> (2 :: uint32_t)" and "tag (?L ! 1) \<noteq> (2 :: uint32_t)"
    by simp_all
  ultimately show ?thesis using h1 h2 h3 h6 by blast
qed

section \<open>The claims on the invariants\<close>

text \<open>
  Claim C5. After any sequence of accesses on a fresh cache (at least one set, at least
  one line per set), in either file, every set \<open>m\<close> of the cache has at most
  \<open>setAssociativity\<close> valid lines and no two different valid lines of \<open>m\<close> hold the same
  tag.
\<close>

theorem valid_lines_bounded_and_tags_unique:
  assumes "cacheLineNum \<noteq> 0" and "0 < setAssociativity"
    and "m \<in> set (cache (replay CacheAccess setAssociativity blockSize cacheLineNum addresses
                            (fresh (unat cacheLineNum) setAssociativity))) \<or>
         m \<in> set (cache (replay CacheAccess_modified setAssociativity blockSize cacheLineNum
                            addresses (fresh (unat cacheLineNum) setAssociativity)))"
  shows "length (filter valid m) \<le> setAssociativity \<and>
         (\<forall>i<length m. \<forall>j<length m.
            i \<noteq> j \<and> valid (m ! i) \<and> valid (m ! j) \<longrightarrow> tag (m ! i) \<noteq> tag (m ! j))"
  using assms(3)
    cache_inv_claim [OF replay_CacheAccess_inv [OF assms(1,2)], of m blockSize addresses]
    cache_inv_claim [OF replay_CacheAccess_modified_inv [OF assms(1,2)], of m blockSize addresses]
  by blast

theorem valid_lines_bounded_and_tags_unique_witness:
  "(1 :: uint32_t) \<noteq> 0 \<and> (0 :: nat) < 2 \<and>
   [\<lparr>valid = True, tag = 0, LRUcount = 2\<rparr>, \<lparr>valid = True, tag = 2, LRUcount = 3\<rparr>]
     \<in> set (cache (replay CacheAccess 2 16 1 [0x00, 0x10, 0x00, 0x20] (fresh 1 2))) \<and>
   length (filter valid
     [\<lparr>valid = True, tag = 0, LRUcount = 2\<rparr>, \<lparr>valid = True, tag = (2 :: uint32_t), LRUcount = 3\<rparr>]) \<le> 2 \<and>
   tag ([\<lparr>valid = True, tag = 0, LRUcount = 2\<rparr>, \<lparr>valid = True, tag = 2, LRUcount = 3\<rparr>] ! 0) \<noteq>
   tag ([\<lparr>valid = True, tag = 0, LRUcount = 2\<rparr>, \<lparr>valid = True, tag = (2 :: uint32_t), LRUcount = 3\<rparr>] ! 1)"
proof -
  let ?m = "[\<lparr>valid = True, tag = 0, LRUcount = 2\<rparr>, \<lparr>valid = True, tag = (2 :: uint32_t), LRUcount = 3\<rparr>]"
  have h1: "(1 :: uint32_t) \<noteq> 0" by simp
  have h2: "(0 :: nat) < 2" by simp
  have mem: "?m \<in> set (cache (replay CacheAccess 2 16 1 [0x00, 0x10, 0x00, 0x20] (fresh 1 2)))"
    unfolding two_way_ABAC by simp
  then have h3: "?m \<in> set (cache (replay CacheAccess 2 16 1 [0x00, 0x10, 0x00, 0x20]
                                (fresh (unat (1 :: uint32_t)) 2))) \<or>
                 ?m \<in> set (cache (replay CacheAccess_modified 2 16 1 [0x00, 0x10, 0x00, 0x20]
                                (fresh (unat (1 :: uint32_t)) 2)))"
    by (simp only: unat_1 simp_thms)
  from valid_lines_bounded_and_tags_unique [OF h1 h2 h3]
  have "length (filter valid ?m) \<le> 2"
    and "\<forall>i<length ?m. \<forall>j<length ?m.
           i \<noteq> j \<and> valid (?m ! i) \<and> valid (?m ! j) \<longrightarrow> tag (?m ! i) \<noteq> tag (?m ! j)"
    by blast+
  then have "length (filter valid ?m) \<le> 2" and "tag (?m ! 0) \<noteq> tag (?m ! 1)"
    by simp_all
  with h1 h2 mem show ?thesis by blast
qed



section \<open>The claims on the driver\<close>

text \<open>
  Claim C9, as the specification states it, fails where the product
  \<^verbatim>\<open>blockSize * setAssociativity\<close> does not fit 32 bits. With \<open>blockSize = 65536\<close>,
  associativity 65536 and \<open>cacheSize = 65536 * 65536 - 1\<close> the quotient of the claim is 0,
  but the \<^verbatim>\<open>uint32_t\<close> product is 0 and the division traps. With \<open>blockSize = 2 ^ 20\<close>,
  associativity 4097 and \<open>cacheSize = 2 ^ 21\<close> the quotient of the claim is 0 again, but
  the product wraps to \<open>2 ^ 20\<close>, the check passes with two sets and the run goes on to
  write a row (here for an empty trace).
\<close>

theorem wrapped_product_counterexample:
  "(4294967295 :: nat) = 65536 * 65536 - 1 \<and>
   (4294967295 :: nat) div (65536 * 65536) = 0 \<and>
   simulateCache 4294967295 65536 65536 ''gcc.trace'' (Some []) = DivisionByZero \<and>
   simulateCache_modified 4294967295 65536 65536 ''gcc.trace'' (Some []) = DivisionByZero \<and>
   (2097152 :: nat) div (1048576 * 4097) = 0 \<and>
   simulateCache 2097152 1048576 4097 ''gcc.trace'' (Some []) =
     Row \<lparr>traceName = ''gcc.trace'', cacheSizeKB = 2048, blockSizeBytes = 1048576,
          associativity = 4097, hitRate = NaN, missRate = NaN\<rparr> \<and>
   simulateCache_modified 2097152 1048576 4097 ''gcc.trace'' (Some []) =
     Row \<lparr>traceName = ''gcc.trace'', cacheSizeKB = 2048, blockSizeBytes = 1048576,
          associativity = 4097, hitRate = NaN, missRate = NaN\<rparr>"
proof -
  have trap: "simulateCache_with access 4294967295 65536 65536 ''gcc.trace'' (Some []) =
      DivisionByZero" for access
    by (simp add: simulateCache_with_def)
  have h1: "(1048576 :: uint32_t) * 4097 \<noteq> 0" by simp
  have h2: "(2097152 :: uint32_t) div (1048576 * 4097) \<noteq> 0" by simp
  have h3: "0 \<le> sint (4097 :: int32_t)" by simp
  have kb: "(2097152 :: uint32_t) div 1024 = 2048" by simp
  have row: "simulateCache_with access 2097152 1048576 4097 ''gcc.trace'' (Some []) =
      Row \<lparr>traceName = ''gcc.trace'', cacheSizeKB = 2048, blockSizeBytes = 1048576,
           associativity = 4097, hitRate = NaN, missRate = NaN\<rparr>" for access
    using simulateCache_with_empty [OF h1 h2 h3, of access "''gcc.trace''"] unfolding kb .
  have "(4294967295 :: nat) = 65536 * 65536 - 1"
    and "(4294967295 :: nat) div (65536 * 65536) = 0"
    and "(2097152 :: nat) div (1048576 * 4097) = 0"
    by simp_all
  with trap row show ?thesis
    unfolding simulateCache_def simulateCache_modified_def by blast
qed

text \<open>
  Claim C9, amended. When the product \<^verbatim>\<open>blockSize * setAssociativity\<close>, as the source
  computes it in \<^verbatim>\<open>uint32_t\<close>, is not 0 and \<^verbatim>\<open>cacheSize\<close> divided by it is 0,
  \<^verbatim>\<open>simulateCache\<close> of either file only writes the message \<^verbatim>\<open>Invalid configuration\<close> and
  returns: the outcome is neither a crash nor a row, and no cache is built and no access
  runs on that path. In particular this is so for \<open>cacheSize\<close> equal to that product
  minus 1, and whenever the product fits 32 bits, is positive and exceeds \<open>cacheSize\<close>.
\<close>

theorem zero_sets_is_invalid_configuration:
  assumes "blockSize * setAssociativity \<noteq> 0"
  shows "(cacheSize div (blockSize * setAssociativity) = 0 \<longrightarrow>
            simulateCache cacheSize blockSize setAssociativity traceFile tracefile =
              InvalidConfiguration \<and>
            simulateCache_modified cacheSize blockSize setAssociativity traceFile tracefile =
              InvalidConfiguration) \<and>
         simulateCache (blockSize * setAssociativity - 1) blockSize setAssociativity
           traceFile tracefile = InvalidConfiguration \<and>
         simulateCache_modified (blockSize * setAssociativity - 1) blockSize setAssociativity
           traceFile tracefile = InvalidConfiguration \<and>
         (unat blockSize * unat setAssociativity < 2 ^ 32 \<and>
          unat cacheSize < unat blockSize * unat setAssociativity \<longrightarrow>
            simulateCache cacheSize blockSize setAssociativity traceFile tracefile =
              InvalidConfiguration \<and>
            simulateCache_modified cacheSize blockSize setAssociativity traceFile tracefile =
              InvalidConfiguration)"
proof -
  have example: "(blockSize * setAssociativity - 1) div (blockSize * setAssociativity) = 0"
    by (rule div_word_less [OF dec_less [OF assms]])
  have general: "simulateCache_with access cacheSize blockSize setAssociativity
        traceFile tracefile = InvalidConfiguration"
    if "cacheSize div (blockSize * setAssociativity) = 0" for access
    by (rule simulateCache_with_zero [OF assms that])
  have fits: "cacheSize div (blockSize * setAssociativity) = 0"
    if "unat blockSize * unat setAssociativity < 2 ^ 32"
      and "unat cacheSize < unat blockSize * unat setAssociativity"
  proof -
    have "unat blockSize * unat setAssociativity < 2 ^ LENGTH(32)"
      using that(1) by simp
    then have "unat (blockSize * setAssociativity) = unat blockSize * unat setAssociativity"
      by (rule unat_mult_lem [THEN iffD1])
    with that(2) have "cacheSize < blockSize * setAssociativity"
      by (simp only: word_less_nat_alt)
    then show ?thesis by (rule div_word_less)
  qed
  show ?thesis
    unfolding simulateCache_def simulateCache_modified_def
    using general simulateCache_with_zero [OF assms example] fits by blast
qed

theorem zero_sets_is_invalid_configuration_witness:
  "(16 :: uint32_t) * 2 \<noteq> 0 \<and> (31 :: uint32_t) div (16 * 2) = 0 \<and>
   simulateCache 31 16 2 ''gcc.trace'' (Some [0x0, 0x10]) = InvalidConfiguration \<and>
   simulateCache_modified 31 16 2 ''gcc.trace'' (Some [0x0, 0x10]) = InvalidConfiguration"
proof -
  have h: "(16 :: uint32_t) * 2 \<noteq> 0" by simp
  have z: "(31 :: uint32_t) div (16 * 2) = 0" by simp
  from zero_sets_is_invalid_configuration [OF h, of 31 "''gcc.trace''" "Some [0x0, 0x10]"] z h
  show ?thesis by blast
qed

theorem empty_trace_row_counterexample:
  "simulateCache 16 16 1 ''gcc.trace'' (Some []) =
     Row \<lparr>traceName = ''gcc.trace'', cacheSizeKB = 0, blockSizeBytes = 16, associativity = 1,
          hitRate = times100 (double_div 0 0), missRate = times100 (double_div 0 0)\<rparr>"
  by code_simp

text \<open>
  Claim C2, amended. For every configuration that passes the checks of \<^verbatim>\<open>simulateCache\<close>
  (nonzero divisor, at least one set, non-negative associativity) and an empty trace,
  both files write a row whose hit rate and miss rate are NaN, the value of the unguarded
  division of 0 by 0: distinct from 0, but computed, and computed by dividing by zero.
\<close>

theorem empty_trace_rates_are_nan:
  assumes "blockSize * setAssociativity \<noteq> 0"
    and "cacheSize div (blockSize * setAssociativity) \<noteq> 0"
    and "0 \<le> sint setAssociativity"
  shows "simulateCache cacheSize blockSize setAssociativity traceFile (Some []) =
           Row \<lparr>traceName = traceFile, cacheSizeKB = cacheSize div 1024,
                blockSizeBytes = blockSize, associativity = setAssociativity,
                hitRate = NaN, missRate = NaN\<rparr> \<and>
         simulateCache_modified cacheSize blockSize setAssociativity traceFile (Some []) =
           Row \<lparr>traceName = traceFile, cacheSizeKB = cacheSize div 1024,
                blockSizeBytes = blockSize, associativity = setAssociativity,
                hitRate = NaN, missRate = NaN\<rparr> \<and>
         NaN \<noteq> Finite 0 \<and> times100 (double_div 0 0) = NaN"
  unfolding simulateCache_def simulateCache_modified_def
  by (simp add: simulateCache_with_empty [OF assms] double_div_def)

theorem empty_trace_rates_are_nan_witness:
  "(4 :: uint32_t) * 4 \<noteq> 0 \<and> (1048576 :: uint32_t) div (4 * 4) \<noteq> 0 \<and>
   0 \<le> sint (4 :: int32_t) \<and>
   simulateCache 1048576 4 4 ''swim.trace'' (Some []) =
     Row \<lparr>traceName = ''swim.trace'', cacheSizeKB = 1024, blockSizeBytes = 4,
          associativity = 4, hitRate = NaN, missRate = NaN\<rparr> \<and>
   simulateCache_modified 1048576 4 4 ''swim.trace'' (Some []) =
     Row \<lparr>traceName = ''swim.trace'', cacheSizeKB = 1024, blockSizeBytes = 4,
          associativity = 4, hitRate = NaN, missRate = NaN\<rparr>"
proof -
  have h1: "(4 :: uint32_t) * 4 \<noteq> 0" by simp
  have h2: "(1048576 :: uint32_t) div (4 * 4) \<noteq> 0" by simp
  have h3: "0 \<le> sint (4 :: int32_t)" by simp
  have kb: "(1048576 :: uint32_t) div 1024 = 1024" by simp
  from empty_trace_rates_are_nan [OF h1 h2 h3, of "''swim.trace''"] h1 h2 h3
  show ?thesis unfolding kb by blast
qed

end
